theory Spec2Isabelle
  imports Main "HOL-Library.Word"
begin

section \<open>The data model of IR.h\<close>

text \<open>
  \<^verbatim>\<open>struct Type { enum {Int, UInt, Float} t; int bits; int width; };\<close>
  The enumerators are suffixed because \<open>Int\<close> is the ASCII notation of set
  intersection. No arithmetic is done on \<open>bits\<close> and \<open>width\<close> anywhere in the
  header, so the C++ \<open>int\<close> is read as a mathematical integer.
\<close>

datatype TypeCode = Int_t | UInt_t | Float_t

record Type =
  t_code :: TypeCode
  bits :: int
  width :: int

text \<open>
  A \<^verbatim>\<open>const IRNode *\<close> is an address or \<open>NULL\<close>. \<open>IRHandle\<close> has the single
  field \<open>node\<close>; \<open>Expr\<close> and \<open>Stmt\<close> derive from it and add no field.
\<close>

type_synonym addr = nat

record IRHandle =
  node :: "addr option"

type_synonym Expr = IRHandle
type_synonym Stmt = IRHandle

datatype CallType = Image | Extern | Halide

datatype ForType = Serial | Parallel | Vectorized | Unrolled

text \<open>
  The concrete node structs, one constructor per struct, the fields in the
  order of their declaration. \<open>Min\<close>, \<open>Max\<close>, \<open>Not\<close> and \<open>Let\<close> are constants of
  HOL and carry a suffix. A \<open>float\<close> is kept as its 32 bits: the header only
  stores it.
\<close>

datatype IRNodeData =
    IntImm int
  | FloatImm "32 word"
  | Cast Type Expr
  | Var Type string
  | Add Expr Expr
  | Sub Expr Expr
  | Mul Expr Expr
  | Div Expr Expr
  | Mod Expr Expr
  | Min_n Expr Expr
  | Max_n Expr Expr
  | EQ Expr Expr
  | NE Expr Expr
  | LT Expr Expr
  | LE Expr Expr
  | GT Expr Expr
  | GE Expr Expr
  | And Expr Expr
  | Or Expr Expr
  | Not_n Expr
  | Select Expr Expr Expr
  | Load Type string Expr
  | Ramp Expr Expr int
  | Call Type string "Expr list" CallType
  | Let_n string Expr Expr
  | LetStmt string Expr Stmt
  | PrintStmt string "Expr list"
  | AssertStmt Expr string
  | Pipeline string Stmt Stmt Stmt
  | For string Expr Expr ForType Stmt
  | Store string Expr Expr
  | Provide string Expr "Expr list"
  | Allocate string Type Expr Stmt
  | Realize string Type "(Expr \<times> Expr) list" Stmt
  | Block Stmt Stmt

text \<open>
  \<^verbatim>\<open>struct IRNode { ...; mutable int ref_count; };\<close> with the fields of the
  derived struct in \<open>data\<close>.
\<close>

record IRNode =
  ref_count :: int
  data :: IRNodeData


section \<open>The heap of nodes\<close>

text \<open>
  Nodes live in a heap: the address of a node is its index, a deallocated
  cell is \<open>None\<close>, and \<^verbatim>\<open>new\<close> returns the first address beyond all cells, so
  that a new node never shares its address with a node that exists or existed.
  The counter \<open>ref_count\<close> is a C++ \<open>int\<close>; it is read as a mathematical integer
  (no wrap-around below \<open>2^31\<close> handles).
\<close>

type_synonym heap = "IRNode option list"

definition lookup :: "heap \<Rightarrow> addr \<Rightarrow> IRNode option" where
  "lookup h p = (if p < length h then h ! p else None)"

text \<open>
  What the C++ does wrong is a value of the model: a failed \<^verbatim>\<open>assert\<close> (with
  the text of its message), \<^verbatim>\<open>node->...\<close> on a null pointer, and the same on
  an address that holds no node. \<open>BadHandle\<close> is the model's own: an
  operation names a handle variable that does not exist (or, for a
  constructor, one that already does).
\<close>

datatype error =
    AssertionFailed string
  | NullDereference
  | InvalidPointer
  | BadHandle

subsection \<open>defined and sameAs\<close>

text \<open>
  \<^verbatim>\<open>bool defined() const { return node; }\<close>
  \<^verbatim>\<open>bool sameAs(const IRHandle &other) { return node == other.node; }\<close>
\<close>

definition defined :: "IRHandle \<Rightarrow> bool" where
  "defined hnd = (node hnd \<noteq> None)"

definition sameAs :: "IRHandle \<Rightarrow> IRHandle \<Rightarrow> bool" where
  "sameAs hnd other = (node hnd = node other)"

subsection \<open>incref\<close>

text \<open>
  \<^verbatim>\<open>void incref() { if (node) { node->ref_count++; } }\<close>
\<close>

definition incref :: "heap \<Rightarrow> IRHandle \<Rightarrow> error + heap" where
  "incref h hnd =
     (case node hnd of
        None \<Rightarrow> Inr h
      | Some p \<Rightarrow>
          (case lookup h p of
             None \<Rightarrow> Inl InvalidPointer
           | Some n \<Rightarrow> Inr (h[p := Some (n\<lparr>ref_count := ref_count n + 1\<rparr>)])))"

fun incref_all :: "heap \<Rightarrow> IRHandle list \<Rightarrow> error + heap" where
  "incref_all h [] = Inr h"
| "incref_all h (hnd # hnds) =
     (case incref h hnd of Inl e \<Rightarrow> Inl e | Inr h' \<Rightarrow> incref_all h' hnds)"

subsection \<open>The member handles of a node\<close>

text \<open>
  The handles a node holds as fields, in the order of declaration; the
  elements of a \<^verbatim>\<open>vector\<close> in index order, a \<^verbatim>\<open>pair\<close> as first, second.
\<close>

fun pair_handles :: "(Expr \<times> Expr) list \<Rightarrow> IRHandle list" where
  "pair_handles [] = []"
| "pair_handles ((lo, ex) # bs) = lo # ex # pair_handles bs"

fun children :: "IRNodeData \<Rightarrow> IRHandle list" where
  "children (IntImm v) = []"
| "children (FloatImm v) = []"
| "children (Cast ty v) = [v]"
| "children (Var ty n) = []"
| "children (Add a b) = [a, b]"
| "children (Sub a b) = [a, b]"
| "children (Mul a b) = [a, b]"
| "children (Div a b) = [a, b]"
| "children (Mod a b) = [a, b]"
| "children (Min_n a b) = [a, b]"
| "children (Max_n a b) = [a, b]"
| "children (EQ a b) = [a, b]"
| "children (NE a b) = [a, b]"
| "children (LT a b) = [a, b]"
| "children (LE a b) = [a, b]"
| "children (GT a b) = [a, b]"
| "children (GE a b) = [a, b]"
| "children (And a b) = [a, b]"
| "children (Or a b) = [a, b]"
| "children (Not_n a) = [a]"
| "children (Select c tv fv) = [c, tv, fv]"
| "children (Load ty b i) = [i]"
| "children (Ramp b s w) = [b, s]"
| "children (Call ty b args ct) = args"
| "children (Let_n n v b) = [v, b]"
| "children (LetStmt n v b) = [v, b]"
| "children (PrintStmt p args) = args"
| "children (AssertStmt c m) = [c]"
| "children (Pipeline b p u c) = [p, u, c]"
| "children (For n m e f b) = [m, e, b]"
| "children (Store b v i) = [v, i]"
| "children (Provide b v args) = v # args"
| "children (Allocate buf ty s bod) = [s, bod]"
| "children (Realize buf ty bou bod) = pair_handles bou @ [bod]"
| "children (Block f r) = [f, r]"

subsection \<open>decref and delete\<close>

text \<open>
  \<^verbatim>\<open>
  void decref() {
      if (node) {
          node->ref_count--;
          if (node->ref_count == 0) { delete node; node = NULL; }
      }
  }
  \<close>
  \<^verbatim>\<open>delete node\<close> runs the virtual destructor of the node, which destroys the
  member handles in the reverse order of their declaration, each by
  \<^verbatim>\<open>~IRHandle() { decref(); }\<close>, and then releases the memory. The recursion
  through the destructors is written with the list of the steps still to do:
  \<open>Decref p\<close> is the body of \<open>decref\<close> on a handle whose \<open>node\<close> is \<open>p\<close>, and
  \<open>Delete p\<close> is the release of the memory of \<open>p\<close>, which comes after the
  destruction of the members of \<open>p\<close>. The language does not fix the order in
  which a \<^verbatim>\<open>vector\<close> destroys its elements; they are taken in reverse too.
\<close>

datatype pending = Decref addr | Delete addr

definition ptrs :: "IRHandle list \<Rightarrow> addr list" where
  "ptrs hnds = List.map_filter node hnds"

definition weight :: "heap \<Rightarrow> nat" where
  "weight h = sum_list (map (\<lambda>c. case c of None \<Rightarrow> 0 | Some n \<Rightarrow> nat (ref_count n)) h)"

lemma weight_update:
  "p < length h \<Longrightarrow>
   weight (h[p := x]) + (case h ! p of None \<Rightarrow> 0 | Some n \<Rightarrow> nat (ref_count n))
     = weight h + (case x of None \<Rightarrow> 0 | Some n \<Rightarrow> nat (ref_count n))"
proof (induction h arbitrary: p)
  case Nil
  then show ?case by simp
next
  case (Cons c h)
  show ?case
  proof (cases p)
    case 0
    then show ?thesis by (simp add: weight_def)
  next
    case (Suc q)
    with Cons.prems have "q < length h" by simp
    from Cons.IH [OF this] show ?thesis using Suc by (simp add: weight_def)
  qed
qed

lemma weight_delete: "weight (h[p := None]) \<le> weight h"
proof (cases "p < length h")
  case True
  from weight_update [OF this, of None] show ?thesis by simp
next
  case False
  then have "h[p := None] = h" by (simp add: not_less list_update_beyond)
  then show ?thesis by simp
qed

lemma weight_decrement:
  assumes "lookup h p = Some n"
  shows "weight (h[p := Some (n\<lparr>ref_count := ref_count n - 1\<rparr>)]) \<le> weight h"
    and "ref_count n - 1 = 0 \<Longrightarrow>
         weight (h[p := Some (n\<lparr>ref_count := ref_count n - 1\<rparr>)]) < weight h"
proof -
  from assms have p: "p < length h" and n: "h ! p = Some n"
    by (auto simp: lookup_def split: if_splits)
  from weight_update [OF p, of "Some (n\<lparr>ref_count := ref_count n - 1\<rparr>)"] n
  have eq: "weight (h[p := Some (n\<lparr>ref_count := ref_count n - 1\<rparr>)]) + nat (ref_count n)
            = weight h + nat (ref_count n - 1)"
    by simp
  then show "weight (h[p := Some (n\<lparr>ref_count := ref_count n - 1\<rparr>)]) \<le> weight h"
    by linarith
  assume "ref_count n - 1 = 0"
  with eq show "weight (h[p := Some (n\<lparr>ref_count := ref_count n - 1\<rparr>)]) < weight h"
    by simp
qed

function decref_run :: "heap \<Rightarrow> pending list \<Rightarrow> error + heap" where
  "decref_run h [] = Inr h"
| "decref_run h (Delete p # todo) = decref_run (h[p := None]) todo"
| "decref_run h (Decref p # todo) =
     (case lookup h p of
        None \<Rightarrow> Inl InvalidPointer
      | Some n \<Rightarrow>
          (if ref_count n - 1 = 0
           then decref_run (h[p := Some (n\<lparr>ref_count := ref_count n - 1\<rparr>)])
                  (map Decref (ptrs (rev (children (data n)))) @ Delete p # todo)
           else decref_run (h[p := Some (n\<lparr>ref_count := ref_count n - 1\<rparr>)]) todo))"
  by pat_completeness auto
termination
proof (relation "measures [\<lambda>(h, todo). weight h, \<lambda>(h, todo). length todo]")
  show "wf (measures [\<lambda>(h, todo). weight h, \<lambda>(h, todo). length todo])"
    by simp
next
  fix h :: heap and p todo
  show "((h[p := None], todo), (h, Delete p # todo))
        \<in> measures [\<lambda>(h, todo). weight h, \<lambda>(h, todo). length todo]"
    using weight_delete [of h p] by auto
next
  fix h :: heap and p todo n
  assume "lookup h p = Some n" and "ref_count n - 1 = 0"
  then show "((h[p := Some (n\<lparr>ref_count := ref_count n - 1\<rparr>)],
               map Decref (ptrs (rev (children (data n)))) @ Delete p # todo),
              (h, Decref p # todo))
        \<in> measures [\<lambda>(h, todo). weight h, \<lambda>(h, todo). length todo]"
    using weight_decrement(2) [of h p n] by simp
next
  fix h :: heap and p todo n
  assume "lookup h p = Some n" and "ref_count n - 1 \<noteq> 0"
  then show "((h[p := Some (n\<lparr>ref_count := ref_count n - 1\<rparr>)], todo), (h, Decref p # todo))
        \<in> measures [\<lambda>(h, todo). weight h, \<lambda>(h, todo). length todo]"
    using weight_decrement(1) [of h p n] by auto
qed


section \<open>The constructors of the nodes\<close>

text \<open>
  \<^verbatim>\<open>assert(c && "message")\<close> aborts the program when \<open>c\<close> is false. The
  asserts of a constructor are listed in the order in which it runs them;
  \<open>asserts\<close> gives the message of the first that fails, \<open>None\<close> when all hold.
  (The header is read as compiled without \<^verbatim>\<open>NDEBUG\<close>.)
\<close>

fun asserts :: "(bool \<times> string) list \<Rightarrow> string option" where
  "asserts [] = None"
| "asserts ((c, m) # rest) = (if c then asserts rest else Some m)"

text \<open>
  One equation per constructor body. The loops over \<^verbatim>\<open>args\<close> and \<^verbatim>\<open>bounds\<close>
  assert each element in index order.
\<close>

fun ctor_asserts :: "IRNodeData \<Rightarrow> string option" where
  "ctor_asserts (IntImm v) = None"
| "ctor_asserts (FloatImm v) = None"
| "ctor_asserts (Cast ty v) = asserts [(defined v, ''Cast of undefined'')]"
| "ctor_asserts (Var ty n) = None"
| "ctor_asserts (Add a b) =
     asserts [(defined a, ''Add of undefined''), (defined b, ''Add of undefined'')]"
| "ctor_asserts (Sub a b) =
     asserts [(defined a, ''Sub of undefined''), (defined b, ''Sub of undefined'')]"
| "ctor_asserts (Mul a b) =
     asserts [(defined a, ''Mul of undefined''), (defined b, ''Mul of undefined'')]"
| "ctor_asserts (Div a b) =
     asserts [(defined a, ''Div of undefined''), (defined b, ''Div of undefined'')]"
| "ctor_asserts (Mod a b) =
     asserts [(defined a, ''Mod of undefined''), (defined b, ''Mod of undefined'')]"
| "ctor_asserts (Min_n a b) =
     asserts [(defined a, ''Min of undefined''), (defined b, ''Min of undefined'')]"
| "ctor_asserts (Max_n a b) =
     asserts [(defined a, ''Max of undefined''), (defined b, ''Max of undefined'')]"
| "ctor_asserts (EQ a b) =
     asserts [(defined a, ''EQ of undefined''), (defined b, ''EQ of undefined'')]"
| "ctor_asserts (NE a b) =
     asserts [(defined a, ''NE of undefined''), (defined b, ''NE of undefined'')]"
| "ctor_asserts (LT a b) =
     asserts [(defined a, ''LT of undefined''), (defined b, ''LT of undefined'')]"
| "ctor_asserts (LE a b) =
     asserts [(defined a, ''LE of undefined''), (defined b, ''LE of undefined'')]"
| "ctor_asserts (GT a b) =
     asserts [(defined a, ''GT of undefined''), (defined b, ''GT of undefined'')]"
| "ctor_asserts (GE a b) =
     asserts [(defined a, ''GE of undefined''), (defined b, ''GE of undefined'')]"
| "ctor_asserts (And a b) =
     asserts [(defined a, ''And of undefined''), (defined b, ''And of undefined'')]"
| "ctor_asserts (Or a b) =
     asserts [(defined a, ''Or of undefined''), (defined b, ''Or of undefined'')]"
| "ctor_asserts (Not_n a) = asserts [(defined a, ''Not of undefined'')]"
| "ctor_asserts (Select c tv fv) =
     asserts [(defined c, ''Select of undefined''), (defined tv, ''Select of undefined''),
              (defined fv, ''Select of undefined'')]"
| "ctor_asserts (Load ty b i) = asserts [(defined i, ''Load of undefined'')]"
| "ctor_asserts (Ramp b s w) =
     asserts [(defined b, ''Ramp of undefined''), (defined s, ''Ramp of undefined''),
              (w > 0, ''Ramp of width <= 0'')]"
| "ctor_asserts (Call ty b args ct) =
     asserts (map (\<lambda>a. (defined a, ''Call of undefined'')) args)"
| "ctor_asserts (Let_n n v b) =
     asserts [(defined v, ''Let of undefined''), (defined b, ''Let of undefined'')]"
| "ctor_asserts (LetStmt n v b) =
     asserts [(defined v, ''LetStmt of undefined''), (defined b, ''LetStmt of undefined'')]"
| "ctor_asserts (PrintStmt p args) =
     asserts (map (\<lambda>a. (defined a, ''PrintStmt of undefined'')) args)"
| "ctor_asserts (AssertStmt c m) = asserts [(defined c, ''AssertStmt of undefined'')]"
| "ctor_asserts (Pipeline b p u c) =
     asserts [(defined p, ''Pipeline of undefined''), (defined c, ''Pipeline of undefined'')]"
| "ctor_asserts (For n m e f b) =
     asserts [(defined m, ''For of undefined''), (defined e, ''For of undefined''),
              (defined b, ''For of undefined'')]"
| "ctor_asserts (Store b v i) =
     asserts [(defined v, ''Store of undefined''), (defined i, ''Store of undefined'')]"
| "ctor_asserts (Provide b v args) =
     asserts ((defined v, ''Provide of undefined'')
              # map (\<lambda>a. (defined a, ''Provide of undefined'')) args)"
| "ctor_asserts (Allocate buf ty s bod) =
     asserts [(defined s, ''Allocate of undefined''), (defined bod, ''Allocate of undefined'')]"
| "ctor_asserts (Realize buf ty bou bod) =
     asserts (map (\<lambda>a. (defined a, ''Realize of undefined'')) (pair_handles bou)
              @ [(defined bod, ''Realize of undefined'')])"
| "ctor_asserts (Block f r) = asserts [(defined f, ''Block of undefined'')]"

text \<open>
  \<^verbatim>\<open>new T(...)\<close>: the memory is taken, the member initialisers copy the
  argument handles into the fields (the copy constructor of the handle:
  \<open>incref\<close>), and the body runs the asserts. The node starts with
  \<^verbatim>\<open>ref_count(0)\<close>. The arguments are passed by value: \<open>d\<close> holds the
  parameter handles, and the copy that makes a parameter and its destruction
  at the end of the call cancel. A failed assert aborts: there is no heap and
  no node afterwards.
\<close>

definition new_node :: "heap \<Rightarrow> IRNodeData \<Rightarrow> error + (heap \<times> addr)" where
  "new_node h d =
     (case incref_all h (children d) of
        Inl e \<Rightarrow> Inl e
      | Inr h' \<Rightarrow>
          (case ctor_asserts d of
             Some m \<Rightarrow> Inl (AssertionFailed m)
           | None \<Rightarrow> Inr (h' @ [Some \<lparr>ref_count = 0, data = d\<rparr>], length h')))"

section \<open>Dispatch\<close>

text \<open>
  The pointer types \<^verbatim>\<open>const T *\<close> on which \<^verbatim>\<open>IRVisitor::visit\<close> is overloaded,
  one per node struct of the header.
\<close>

datatype NodeKind =
    IntImm_k
  | FloatImm_k
  | Cast_k
  | Var_k
  | Add_k
  | Sub_k
  | Mul_k
  | Div_k
  | Mod_k
  | Min_k
  | Max_k
  | EQ_k
  | NE_k
  | LT_k
  | LE_k
  | GT_k
  | GE_k
  | And_k
  | Or_k
  | Not_k
  | Select_k
  | Load_k
  | Ramp_k
  | Call_k
  | Let_k
  | LetStmt_k
  | PrintStmt_k
  | AssertStmt_k
  | Pipeline_k
  | For_k
  | Store_k
  | Provide_k
  | Allocate_k
  | Realize_k
  | Block_k

text \<open>The struct a node is an instance of.\<close>

fun struct_of :: "IRNodeData \<Rightarrow> NodeKind" where
  "struct_of (IntImm x1) = IntImm_k"
| "struct_of (FloatImm x1) = FloatImm_k"
| "struct_of (Cast x1 x2) = Cast_k"
| "struct_of (Var x1 x2) = Var_k"
| "struct_of (Add x1 x2) = Add_k"
| "struct_of (Sub x1 x2) = Sub_k"
| "struct_of (Mul x1 x2) = Mul_k"
| "struct_of (Div x1 x2) = Div_k"
| "struct_of (Mod x1 x2) = Mod_k"
| "struct_of (Min_n x1 x2) = Min_k"
| "struct_of (Max_n x1 x2) = Max_k"
| "struct_of (EQ x1 x2) = EQ_k"
| "struct_of (NE x1 x2) = NE_k"
| "struct_of (LT x1 x2) = LT_k"
| "struct_of (LE x1 x2) = LE_k"
| "struct_of (GT x1 x2) = GT_k"
| "struct_of (GE x1 x2) = GE_k"
| "struct_of (And x1 x2) = And_k"
| "struct_of (Or x1 x2) = Or_k"
| "struct_of (Not_n x1) = Not_k"
| "struct_of (Select x1 x2 x3) = Select_k"
| "struct_of (Load x1 x2 x3) = Load_k"
| "struct_of (Ramp x1 x2 x3) = Ramp_k"
| "struct_of (Call x1 x2 x3 x4) = Call_k"
| "struct_of (Let_n x1 x2 x3) = Let_k"
| "struct_of (LetStmt x1 x2 x3) = LetStmt_k"
| "struct_of (PrintStmt x1 x2) = PrintStmt_k"
| "struct_of (AssertStmt x1 x2) = AssertStmt_k"
| "struct_of (Pipeline x1 x2 x3 x4) = Pipeline_k"
| "struct_of (For x1 x2 x3 x4 x5) = For_k"
| "struct_of (Store x1 x2 x3) = Store_k"
| "struct_of (Provide x1 x2 x3) = Provide_k"
| "struct_of (Allocate x1 x2 x3 x4) = Allocate_k"
| "struct_of (Realize x1 x2 x3 x4) = Realize_k"
| "struct_of (Block x1 x2) = Block_k"

text \<open>
  The template argument \<open>T\<close> of the base \<^verbatim>\<open>ExprNode<T>\<close> or \<^verbatim>\<open>StmtNode<T>\<close>
  named in the declaration of each struct, as in
  \<^verbatim>\<open>struct Add : public ExprNode<Add>\<close>.
\<close>

fun base_T :: "IRNodeData \<Rightarrow> NodeKind" where
  "base_T (IntImm x1) = IntImm_k"
| "base_T (FloatImm x1) = FloatImm_k"
| "base_T (Cast x1 x2) = Cast_k"
| "base_T (Var x1 x2) = Var_k"
| "base_T (Add x1 x2) = Add_k"
| "base_T (Sub x1 x2) = Sub_k"
| "base_T (Mul x1 x2) = Mul_k"
| "base_T (Div x1 x2) = Div_k"
| "base_T (Mod x1 x2) = Mod_k"
| "base_T (Min_n x1 x2) = Min_k"
| "base_T (Max_n x1 x2) = Max_k"
| "base_T (EQ x1 x2) = EQ_k"
| "base_T (NE x1 x2) = NE_k"
| "base_T (LT x1 x2) = LT_k"
| "base_T (LE x1 x2) = LE_k"
| "base_T (GT x1 x2) = GT_k"
| "base_T (GE x1 x2) = GE_k"
| "base_T (And x1 x2) = And_k"
| "base_T (Or x1 x2) = Or_k"
| "base_T (Not_n x1) = Not_k"
| "base_T (Select x1 x2 x3) = Select_k"
| "base_T (Load x1 x2 x3) = Load_k"
| "base_T (Ramp x1 x2 x3) = Ramp_k"
| "base_T (Call x1 x2 x3 x4) = Call_k"
| "base_T (Let_n x1 x2 x3) = Let_k"
| "base_T (LetStmt x1 x2 x3) = LetStmt_k"
| "base_T (PrintStmt x1 x2) = PrintStmt_k"
| "base_T (AssertStmt x1 x2) = AssertStmt_k"
| "base_T (Pipeline x1 x2 x3 x4) = Pipeline_k"
| "base_T (For x1 x2 x3 x4 x5) = For_k"
| "base_T (Store x1 x2 x3) = Store_k"
| "base_T (Provide x1 x2 x3) = Provide_k"
| "base_T (Allocate x1 x2 x3 x4) = Allocate_k"
| "base_T (Realize x1 x2 x3 x4) = Realize_k"
| "base_T (Block x1 x2) = Block_k"

text \<open>
  \<^verbatim>\<open>IRVisitor.h\<close> is not part of the sources at hand, so a visitor is a
  parameter: for each pointer type \<^verbatim>\<open>const T *\<close> the operation
  \<^verbatim>\<open>visit(const T *)\<close>, which is given the node's address, may read the heap,
  and changes the visitor's own state \<open>'st\<close>.
\<close>

type_synonym 'st IRVisitor = "NodeKind \<Rightarrow> addr \<Rightarrow> heap \<Rightarrow> 'st \<Rightarrow> 'st"

text \<open>
  \<^verbatim>\<open>void accept(IRVisitor *v) const { v->visit((const T *)this); }\<close> of
  \<^verbatim>\<open>ExprNode<T>\<close> and \<^verbatim>\<open>StmtNode<T>\<close>, for the node \<open>n\<close> at address \<open>p\<close>.
\<close>

definition IRNode_accept :: "heap \<Rightarrow> addr \<Rightarrow> IRNode \<Rightarrow> 'st IRVisitor \<Rightarrow> 'st \<Rightarrow> 'st" where
  "IRNode_accept h p n v st = v (base_T (data n)) p h st"

text \<open>
  \<^verbatim>\<open>void accept(IRVisitor *v) const { node->accept(v); }\<close> of \<^verbatim>\<open>IRHandle\<close>.
\<close>

definition accept :: "heap \<Rightarrow> IRHandle \<Rightarrow> 'st IRVisitor \<Rightarrow> 'st \<Rightarrow> error + 'st" where
  "accept h hnd v st =
     (case node hnd of
        None \<Rightarrow> Inl NullDereference
      | Some p \<Rightarrow>
          (case lookup h p of
             None \<Rightarrow> Inl InvalidPointer
           | Some n \<Rightarrow> Inr (IRNode_accept h p n v st)))"

text \<open>A visitor that records which operation fired, and on which node.\<close>

definition recorder :: "(NodeKind \<times> addr) list IRVisitor" where
  "recorder k p h fired = fired @ [(k, p)]"

section \<open>Handles as objects\<close>

text \<open>
  The body of \<open>decref\<close> on a handle: the node's side is \<open>decref_run\<close>, and the
  handle's \<open>node\<close> becomes \<open>NULL\<close> when the count reached zero.
\<close>

definition decref :: "heap \<Rightarrow> IRHandle \<Rightarrow> error + (heap \<times> IRHandle)" where
  "decref h hnd =
     (case node hnd of
        None \<Rightarrow> Inr (h, hnd)
      | Some p \<Rightarrow>
          (case lookup h p of
             None \<Rightarrow> Inl InvalidPointer
           | Some n \<Rightarrow>
               (case decref_run h [Decref p] of
                  Inl e \<Rightarrow> Inl e
                | Inr h' \<Rightarrow>
                    Inr (h', if ref_count n - 1 = 0 then hnd\<lparr>node := None\<rparr> else hnd))))"

text \<open>
  A handle is an object that its operations change, and \<^verbatim>\<open>operator=\<close> takes
  the other handle by reference, so handles are kept in a store: \<open>handles s x\<close>
  is the handle object named \<open>x\<close>, \<open>None\<close> when there is no such object.
  The store holds the handles that are variables of the client; the handles
  that are members of nodes are in the heap, inside \<open>data\<close>. \<open>Expr\<close> and \<open>Stmt\<close>
  differ in the static type of the pointer they are constructed from, which
  the model does not track.
\<close>

record state =
  heap :: heap
  handles :: "nat \<Rightarrow> IRHandle option"

text \<open>\<^verbatim>\<open>IRHandle() : node(NULL) {}\<close>\<close>

definition IRHandle_default :: "state \<Rightarrow> nat \<Rightarrow> error + state" where
  "IRHandle_default s x =
     (case handles s x of
        Some _ \<Rightarrow> Inl BadHandle
      | None \<Rightarrow> Inr (s\<lparr>handles := (handles s)(x := Some \<lparr>node = None\<rparr>)\<rparr>))"

text \<open>\<^verbatim>\<open>IRHandle(const IRNode *n) : node(n) { incref(); }\<close>\<close>

definition IRHandle_from :: "state \<Rightarrow> nat \<Rightarrow> addr option \<Rightarrow> error + state" where
  "IRHandle_from s x n =
     (case handles s x of
        Some _ \<Rightarrow> Inl BadHandle
      | None \<Rightarrow>
          (case incref (heap s) \<lparr>node = n\<rparr> of
             Inl e \<Rightarrow> Inl e
           | Inr h' \<Rightarrow> Inr \<lparr>heap = h', handles = (handles s)(x := Some \<lparr>node = n\<rparr>)\<rparr>))"

text \<open>\<^verbatim>\<open>IRHandle(const IRHandle &other) : node(other.node) { incref(); }\<close>\<close>

definition IRHandle_copy :: "state \<Rightarrow> nat \<Rightarrow> nat \<Rightarrow> error + state" where
  "IRHandle_copy s x other =
     (case handles s x of
        Some _ \<Rightarrow> Inl BadHandle
      | None \<Rightarrow>
          (case handles s other of
             None \<Rightarrow> Inl BadHandle
           | Some o_hnd \<Rightarrow>
               (case incref (heap s) \<lparr>node = node o_hnd\<rparr> of
                  Inl e \<Rightarrow> Inl e
                | Inr h' \<Rightarrow>
                    Inr \<lparr>heap = h', handles = (handles s)(x := Some \<lparr>node = node o_hnd\<rparr>)\<rparr>)))"

text \<open>
  \<^verbatim>\<open>
  IRHandle &operator=(const IRHandle &other) {
      decref();
      node = other.node;
      incref();
      return *this;
  }
  \<close>
  \<open>other.node\<close> is read from the store after \<open>decref\<close> has run, as the code
  reads it: \<open>other\<close> may be the handle \<open>x\<close> itself.
\<close>

definition IRHandle_assign :: "state \<Rightarrow> nat \<Rightarrow> nat \<Rightarrow> error + state" where
  "IRHandle_assign s x other =
     (case handles s x of
        None \<Rightarrow> Inl BadHandle
      | Some this \<Rightarrow>
          (case decref (heap s) this of
             Inl e \<Rightarrow> Inl e
           | Inr (h1, this1) \<Rightarrow>
               (case ((handles s)(x := Some this1)) other of
                  None \<Rightarrow> Inl BadHandle
                | Some o_hnd \<Rightarrow>
                    (case incref h1 (this1\<lparr>node := node o_hnd\<rparr>) of
                       Inl e \<Rightarrow> Inl e
                     | Inr h2 \<Rightarrow>
                         Inr \<lparr>heap = h2,
                              handles = (handles s)(x := Some (this1\<lparr>node := node o_hnd\<rparr>))\<rparr>))))"

text \<open>\<^verbatim>\<open>~IRHandle() { decref(); }\<close>, after which the object \<open>x\<close> is gone.\<close>

definition IRHandle_dtor :: "state \<Rightarrow> nat \<Rightarrow> error + state" where
  "IRHandle_dtor s x =
     (case handles s x of
        None \<Rightarrow> Inl BadHandle
      | Some this \<Rightarrow>
          (case decref (heap s) this of
             Inl e \<Rightarrow> Inl e
           | Inr (h1, this1) \<Rightarrow> Inr \<lparr>heap = h1, handles = (handles s)(x := None)\<rparr>))"


text \<open>
  \<^verbatim>\<open>Expr x(new T(...))\<close> or \<^verbatim>\<open>Stmt x(new T(...))\<close>: a node is built and the
  handle \<open>x\<close> is constructed from the pointer to it.
\<close>

definition new_handle :: "state \<Rightarrow> nat \<Rightarrow> IRNodeData \<Rightarrow> error + state" where
  "new_handle s x d =
     (case new_node (heap s) d of
        Inl e \<Rightarrow> Inl e
      | Inr (h', p) \<Rightarrow> IRHandle_from (s\<lparr>heap := h'\<rparr>) x (Some p))"

subsection \<open>Sequences of operations\<close>

text \<open>
  What a client of the header can do with handles, as a list of operations
  run one after the other; the first failure ends the run.
\<close>

datatype op =
    New nat IRNodeData
  | Copy nat nat
  | Assign nat nat
  | Destroy nat
  | Accept nat

fun step :: "'st IRVisitor \<Rightarrow> state \<times> 'st \<Rightarrow> op \<Rightarrow> error + state \<times> 'st" where
  "step v (s, st) (New x d) =
     (case new_handle s x d of Inl e \<Rightarrow> Inl e | Inr s' \<Rightarrow> Inr (s', st))"
| "step v (s, st) (Copy x other) =
     (case IRHandle_copy s x other of Inl e \<Rightarrow> Inl e | Inr s' \<Rightarrow> Inr (s', st))"
| "step v (s, st) (Assign x other) =
     (case IRHandle_assign s x other of Inl e \<Rightarrow> Inl e | Inr s' \<Rightarrow> Inr (s', st))"
| "step v (s, st) (Destroy x) =
     (case IRHandle_dtor s x of Inl e \<Rightarrow> Inl e | Inr s' \<Rightarrow> Inr (s', st))"
| "step v (s, st) (Accept x) =
     (case handles s x of
        None \<Rightarrow> Inl BadHandle
      | Some hnd \<Rightarrow>
          (case accept (heap s) hnd v st of Inl e \<Rightarrow> Inl e | Inr st' \<Rightarrow> Inr (s, st')))"

fun run :: "'st IRVisitor \<Rightarrow> state \<times> 'st \<Rightarrow> op list \<Rightarrow> error + state \<times> 'st" where
  "run v c [] = Inr c"
| "run v c (a # ops) = (case step v c a of Inl e \<Rightarrow> Inl e | Inr c' \<Rightarrow> run v c' ops)"

section \<open>Notions of the specification\<close>

text \<open>
  A handle is valid in a heap when it is empty or refers to a node that
  exists there: what every handle made by the constructors of the header is,
  as long as the counts are right.
\<close>

definition valid :: "heap \<Rightarrow> IRHandle \<Rightarrow> bool" where
  "valid h hnd = (case node hnd of None \<Rightarrow> True | Some p \<Rightarrow> lookup h p \<noteq> None)"

text \<open>
  The required children of each node kind, as the specification has them:
  every child is required but the update of Pipeline and the rest of Block.
  These are the operands of Cast, the arithmetic, comparison and logic
  nodes, Select, Load, Ramp, Let, LetStmt, AssertStmt, For, Store, Allocate
  and Realize, the first of Block, produce and consume of Pipeline, the value
  of Provide, and every element of the args of Call, PrintStmt and Provide
  and of the bounds of Realize.
\<close>

fun required_children :: "IRNodeData \<Rightarrow> IRHandle list" where
  "required_children (Cast ty v) = [v]"
| "required_children (Add a b) = [a, b]"
| "required_children (Sub a b) = [a, b]"
| "required_children (Mul a b) = [a, b]"
| "required_children (Div a b) = [a, b]"
| "required_children (Mod a b) = [a, b]"
| "required_children (Min_n a b) = [a, b]"
| "required_children (Max_n a b) = [a, b]"
| "required_children (EQ a b) = [a, b]"
| "required_children (NE a b) = [a, b]"
| "required_children (LT a b) = [a, b]"
| "required_children (LE a b) = [a, b]"
| "required_children (GT a b) = [a, b]"
| "required_children (GE a b) = [a, b]"
| "required_children (And a b) = [a, b]"
| "required_children (Or a b) = [a, b]"
| "required_children (Not_n a) = [a]"
| "required_children (Select c tv fv) = [c, tv, fv]"
| "required_children (Load ty b i) = [i]"
| "required_children (Ramp b s w) = [b, s]"
| "required_children (Let_n n v b) = [v, b]"
| "required_children (LetStmt n v b) = [v, b]"
| "required_children (AssertStmt c m) = [c]"
| "required_children (For n m e f b) = [m, e, b]"
| "required_children (Store b v i) = [v, i]"
| "required_children (Allocate buf ty s bod) = [s, bod]"
| "required_children (Realize buf ty bou bod) = map fst bou @ map snd bou @ [bod]"
| "required_children (Block f r) = [f]"
| "required_children (Pipeline b p u c) = [p, c]"
| "required_children (Call ty b args ct) = args"
| "required_children (PrintStmt p args) = args"
| "required_children (Provide b v args) = v # args"
| "required_children (IntImm v) = []"
| "required_children (FloatImm v) = []"
| "required_children (Var ty n) = []"

text \<open>
  Both handles reference the identical underlying node: each holds a pointer
  to a node, and it is the same pointer.
\<close>

definition same_node :: "IRHandle \<Rightarrow> IRHandle \<Rightarrow> bool" where
  "same_node a b = (case node a of None \<Rightarrow> False | Some p \<Rightarrow> node b = Some p)"

text \<open>
  The nodes of \<open>h'\<close> at the addresses of \<open>h\<close> are nodes of \<open>h\<close> with the same
  fields of the derived struct: no address of \<open>h\<close> got a node it did not have,
  and no \<open>data\<close> changed.
\<close>

definition keeps_data :: "heap \<Rightarrow> heap \<Rightarrow> bool" where
  "keeps_data h h' =
     (length h \<le> length h'
      \<and> (\<forall>q n'. q < length h \<longrightarrow> lookup h' q = Some n' \<longrightarrow>
             (\<exists>n. lookup h q = Some n \<and> data n' = data n)))"










text \<open>States and heaps used as concrete inputs.\<close>

definition no_handles :: "nat \<Rightarrow> IRHandle option" where
  "no_handles x = None"

definition one_literal :: heap where
  "one_literal = [Some \<lparr>ref_count = 1, data = IntImm 5\<rparr>]"

definition sole_holder :: state where
  "sole_holder = \<lparr>heap = one_literal, handles = no_handles(0 := Some \<lparr>node = Some 0\<rparr>)\<rparr>"

text \<open>
  An expression and a statement, each held by one handle:
  \<^verbatim>\<open>Expr e(new IntImm(5)); Stmt s(new PrintStmt("p", vector<Expr>()));\<close>
\<close>

definition leaves :: heap where
  "leaves = [Some \<lparr>ref_count = 1, data = IntImm 5\<rparr>,
             Some \<lparr>ref_count = 1, data = PrintStmt ''p'' []\<rparr>]"

definition two_holders :: state where
  "two_holders =
     \<lparr>heap = leaves,
      handles = no_handles(0 := Some \<lparr>node = Some 0\<rparr>, 1 := Some \<lparr>node = Some 1\<rparr>)\<rparr>"

text \<open>
  The state after \<^verbatim>\<open>Expr e(new Add(new IntImm(1), new IntImm(2)))\<close>: the two
  literals are held by the fields of the sum, the sum by the handle 0.
\<close>

definition sum_tree :: state where
  "sum_tree =
     \<lparr>heap = [Some \<lparr>ref_count = 1, data = IntImm 1\<rparr>,
              Some \<lparr>ref_count = 1, data = IntImm 2\<rparr>,
              Some \<lparr>ref_count = 1, data = Add \<lparr>node = Some 0\<rparr> \<lparr>node = Some 1\<rparr>\<rparr>],
      handles = no_handles(0 := Some \<lparr>node = Some 2\<rparr>)\<rparr>"


text \<open>The state of a program that has built nothing yet.\<close>

definition empty_state :: state where
  "empty_state = \<lparr>heap = [], handles = no_handles\<rparr>"

text \<open>
  An instance of every node kind over the heap \<open>leaves\<close>: the children that
  are expressions refer to the literal at address 0, those that are
  statements to the statement at address 1, and the optional ones of Pipeline
  and Block are empty.
\<close>

fun catalog_instance :: "NodeKind \<Rightarrow> IRNodeData" where
  "catalog_instance IntImm_k = IntImm 5"
| "catalog_instance FloatImm_k = FloatImm 0"
| "catalog_instance Cast_k = Cast \<lparr>t_code = Int_t, bits = 32, width = 1\<rparr> \<lparr>node = Some 0\<rparr>"
| "catalog_instance Var_k = Var \<lparr>t_code = Int_t, bits = 32, width = 1\<rparr> ''x''"
| "catalog_instance Add_k = Add \<lparr>node = Some 0\<rparr> \<lparr>node = Some 0\<rparr>"
| "catalog_instance Sub_k = Sub \<lparr>node = Some 0\<rparr> \<lparr>node = Some 0\<rparr>"
| "catalog_instance Mul_k = Mul \<lparr>node = Some 0\<rparr> \<lparr>node = Some 0\<rparr>"
| "catalog_instance Div_k = Div \<lparr>node = Some 0\<rparr> \<lparr>node = Some 0\<rparr>"
| "catalog_instance Mod_k = Mod \<lparr>node = Some 0\<rparr> \<lparr>node = Some 0\<rparr>"
| "catalog_instance Min_k = Min_n \<lparr>node = Some 0\<rparr> \<lparr>node = Some 0\<rparr>"
| "catalog_instance Max_k = Max_n \<lparr>node = Some 0\<rparr> \<lparr>node = Some 0\<rparr>"
| "catalog_instance EQ_k = EQ \<lparr>node = Some 0\<rparr> \<lparr>node = Some 0\<rparr>"
| "catalog_instance NE_k = NE \<lparr>node = Some 0\<rparr> \<lparr>node = Some 0\<rparr>"
| "catalog_instance LT_k = LT \<lparr>node = Some 0\<rparr> \<lparr>node = Some 0\<rparr>"
| "catalog_instance LE_k = LE \<lparr>node = Some 0\<rparr> \<lparr>node = Some 0\<rparr>"
| "catalog_instance GT_k = GT \<lparr>node = Some 0\<rparr> \<lparr>node = Some 0\<rparr>"
| "catalog_instance GE_k = GE \<lparr>node = Some 0\<rparr> \<lparr>node = Some 0\<rparr>"
| "catalog_instance And_k = And \<lparr>node = Some 0\<rparr> \<lparr>node = Some 0\<rparr>"
| "catalog_instance Or_k = Or \<lparr>node = Some 0\<rparr> \<lparr>node = Some 0\<rparr>"
| "catalog_instance Not_k = Not_n \<lparr>node = Some 0\<rparr>"
| "catalog_instance Select_k = Select \<lparr>node = Some 0\<rparr> \<lparr>node = Some 0\<rparr> \<lparr>node = Some 0\<rparr>"
| "catalog_instance Load_k = Load \<lparr>t_code = Int_t, bits = 32, width = 1\<rparr> ''buf'' \<lparr>node = Some 0\<rparr>"
| "catalog_instance Ramp_k = Ramp \<lparr>node = Some 0\<rparr> \<lparr>node = Some 0\<rparr> 4"
| "catalog_instance Call_k = Call \<lparr>t_code = Int_t, bits = 32, width = 1\<rparr> ''f'' [\<lparr>node = Some 0\<rparr>] Halide"
| "catalog_instance Let_k = Let_n ''x'' \<lparr>node = Some 0\<rparr> \<lparr>node = Some 0\<rparr>"
| "catalog_instance LetStmt_k = LetStmt ''x'' \<lparr>node = Some 0\<rparr> \<lparr>node = Some 1\<rparr>"
| "catalog_instance PrintStmt_k = PrintStmt ''p'' [\<lparr>node = Some 0\<rparr>]"
| "catalog_instance AssertStmt_k = AssertStmt \<lparr>node = Some 0\<rparr> ''m''"
| "catalog_instance Pipeline_k = Pipeline ''buf'' \<lparr>node = Some 1\<rparr> \<lparr>node = None\<rparr> \<lparr>node = Some 1\<rparr>"
| "catalog_instance For_k = For ''i'' \<lparr>node = Some 0\<rparr> \<lparr>node = Some 0\<rparr> Parallel \<lparr>node = Some 1\<rparr>"
| "catalog_instance Store_k = Store ''buf'' \<lparr>node = Some 0\<rparr> \<lparr>node = Some 0\<rparr>"
| "catalog_instance Provide_k = Provide ''buf'' \<lparr>node = Some 0\<rparr> [\<lparr>node = Some 0\<rparr>]"
| "catalog_instance Allocate_k = Allocate ''buf'' \<lparr>t_code = Int_t, bits = 32, width = 1\<rparr> \<lparr>node = Some 0\<rparr> \<lparr>node = Some 1\<rparr>"
| "catalog_instance Realize_k = Realize ''buf'' \<lparr>t_code = Int_t, bits = 32, width = 1\<rparr> [(\<lparr>node = Some 0\<rparr>, \<lparr>node = Some 0\<rparr>)] \<lparr>node = Some 1\<rparr>"
| "catalog_instance Block_k = Block \<lparr>node = Some 1\<rparr> \<lparr>node = None\<rparr>"

section \<open>Properties\<close>

subsection \<open>Construction\<close>

lemma lookup_update:
  "lookup (h[p := x]) q = (if q = p \<and> p < length h then x else lookup h q)"
  by (simp add: lookup_def)

lemma incref_valid:
  assumes "valid h hnd"
  shows "\<exists>h'. incref h hnd = Inr h' \<and> length h' = length h
              \<and> (\<forall>q. (lookup h' q = None) = (lookup h q = None))
              \<and> (\<forall>q n'. lookup h' q = Some n' \<longrightarrow> (\<exists>n. lookup h q = Some n \<and> data n' = data n))"
proof (cases "node hnd")
  case None
  then show ?thesis by (simp add: incref_def)
next
  case (Some p)
  with assms obtain n where n: "lookup h p = Some n"
    by (auto simp: valid_def)
  then have "p < length h" by (simp add: lookup_def split: if_splits)
  with Some n show ?thesis
    by (auto simp: incref_def lookup_update)
qed

lemma incref_all_valid:
  "list_all (valid h) hnds \<Longrightarrow>
   \<exists>h'. incref_all h hnds = Inr h' \<and> length h' = length h
         \<and> (\<forall>q. (lookup h' q = None) = (lookup h q = None))"
proof (induction hnds arbitrary: h)
  case Nil
  then show ?case by simp
next
  case (Cons a hnds)
  then have a: "valid h a" and rest: "list_all (valid h) hnds" by simp_all
  from incref_valid [OF a] obtain h1 where h1: "incref h a = Inr h1" "length h1 = length h"
    "\<forall>q. (lookup h1 q = None) = (lookup h q = None)" by blast
  from rest h1(3) have "list_all (valid h1) hnds"
    by (simp add: list_all_iff valid_def split: option.splits)
  from Cons.IH [OF this] h1 show ?case by auto
qed

lemma new_node_succeeds:
  assumes "list_all (valid h) (children d)" and "ctor_asserts d = None"
  shows "\<exists>h'. new_node h d = Inr (h', length h)
             \<and> lookup h' (length h) = Some \<lparr>ref_count = 0, data = d\<rparr>"
proof -
  from incref_all_valid [OF assms(1)] obtain h1
    where "incref_all h (children d) = Inr h1" "length h1 = length h" by blast
  with assms(2) show ?thesis
    by (simp add: new_node_def lookup_def nth_append)
qed

lemma new_node_aborts:
  assumes "list_all (valid h) (children d)" and "ctor_asserts d = Some m"
  shows "new_node h d = Inl (AssertionFailed m)"
proof -
  from incref_all_valid [OF assms(1)] obtain h1
    where "incref_all h (children d) = Inr h1" by blast
  with assms(2) show ?thesis
    by (simp add: new_node_def)
qed


lemma incref_length: "incref h hnd = Inr h' \<Longrightarrow> length h' = length h"
  by (auto simp: incref_def split: option.splits)

lemma incref_all_length: "incref_all h hnds = Inr h' \<Longrightarrow> length h' = length h"
proof (induction hnds arbitrary: h)
  case Nil
  then show ?case by simp
next
  case (Cons a hnds)
  then show ?case
    by (auto split: sum.splits dest: incref_length)
qed

lemma new_node_result:
  assumes "new_node h d = Inr (h', p)"
  shows "ctor_asserts d = None \<and> p = length h
         \<and> lookup h' p = Some \<lparr>ref_count = 0, data = d\<rparr>"
  using assms
  by (auto simp: new_node_def lookup_def nth_append split: sum.splits option.splits
           dest: incref_all_length)

lemma asserts_map:
  "asserts (map (\<lambda>a. (defined a, m)) hnds) = (if list_all defined hnds then None else Some m)"
  by (induction hnds) auto

lemma asserts_append:
  "asserts (xs @ ys) = (case asserts xs of None \<Rightarrow> asserts ys | Some m \<Rightarrow> Some m)"
  by (induction xs) auto

lemma set_pair_handles: "set (pair_handles bs) = fst ` set bs \<union> snd ` set bs"
  by (induction bs rule: pair_handles.induct) auto

lemma required_children_asserted:
  assumes "\<exists>c \<in> set (required_children d). \<not> defined c"
  shows "\<exists>m. ctor_asserts d = Some m"
  using assms
  by (cases d)
     (auto simp: asserts_map asserts_append list_all_iff set_pair_handles split: option.splits)


subsection \<open>Constructors refuse an empty required child\<close>

text \<open>
  C1. For every node kind with required children, a constructor call in which
  some required child handle is empty produces no node, whatever the heap;
  and where the argument handles are valid, the call ends in a failed assert
  (the precondition violation). So no node with a violated invariant is ever
  constructed.
\<close>

theorem required_child_empty_aborts:
  assumes "\<exists>c \<in> set (required_children d). \<not> defined c"
  shows "(\<forall>h' p. new_node h d \<noteq> Inr (h', p))
         \<and> (list_all (valid h) (children d) \<longrightarrow> (\<exists>m. new_node h d = Inl (AssertionFailed m)))"
proof -
  from required_children_asserted [OF assms] obtain m where m: "ctor_asserts d = Some m" ..
  then have "\<forall>h' p. new_node h d \<noteq> Inr (h', p)"
    by (auto dest: new_node_result)
  moreover have "list_all (valid h) (children d) \<longrightarrow> new_node h d = Inl (AssertionFailed m)"
    using m by (simp add: new_node_aborts)
  ultimately show ?thesis by blast
qed

theorem required_child_empty_aborts_witness:
  "(\<exists>c \<in> set (required_children (Add \<lparr>node = Some 0\<rparr> \<lparr>node = None\<rparr>)). \<not> defined c)
   \<and> list_all (valid one_literal) (children (Add \<lparr>node = Some 0\<rparr> \<lparr>node = None\<rparr>))
   \<and> new_node one_literal (Add \<lparr>node = Some 0\<rparr> \<lparr>node = None\<rparr>)
       = Inl (AssertionFailed ''Add of undefined'')
   \<and> (\<exists>c \<in> set (required_children (Provide ''f'' \<lparr>node = None\<rparr> [\<lparr>node = Some 0\<rparr>])).
          \<not> defined c)
   \<and> list_all (valid one_literal) (children (Provide ''f'' \<lparr>node = None\<rparr> [\<lparr>node = Some 0\<rparr>]))
   \<and> new_node one_literal (Provide ''f'' \<lparr>node = None\<rparr> [\<lparr>node = Some 0\<rparr>])
       = Inl (AssertionFailed ''Provide of undefined'')"
proof -
  have a: "\<exists>c \<in> set (required_children (Add \<lparr>node = Some 0\<rparr> \<lparr>node = None\<rparr>)). \<not> defined c"
    by (simp add: defined_def)
  have b: "list_all (valid one_literal) (children (Add \<lparr>node = Some 0\<rparr> \<lparr>node = None\<rparr>))"
    by (simp add: valid_def lookup_def one_literal_def)
  from required_child_empty_aborts [OF a, of one_literal] b
  obtain m where "new_node one_literal (Add \<lparr>node = Some 0\<rparr> \<lparr>node = None\<rparr>)
                  = Inl (AssertionFailed m)"
    by blast
  moreover have "new_node one_literal (Add \<lparr>node = Some 0\<rparr> \<lparr>node = None\<rparr>)
                  = Inl (AssertionFailed ''Add of undefined'')"
    by (simp add: new_node_def incref_def lookup_def one_literal_def defined_def)
  ultimately have first: "new_node one_literal (Add \<lparr>node = Some 0\<rparr> \<lparr>node = None\<rparr>)
                  = Inl (AssertionFailed ''Add of undefined'')"
    by simp
  have c: "\<exists>c \<in> set (required_children (Provide ''f'' \<lparr>node = None\<rparr> [\<lparr>node = Some 0\<rparr>])).
             \<not> defined c"
    by (simp add: defined_def)
  have d: "list_all (valid one_literal)
             (children (Provide ''f'' \<lparr>node = None\<rparr> [\<lparr>node = Some 0\<rparr>]))"
    by (simp add: valid_def lookup_def one_literal_def)
  from required_child_empty_aborts [OF c, of one_literal] d
  obtain m' where "new_node one_literal (Provide ''f'' \<lparr>node = None\<rparr> [\<lparr>node = Some 0\<rparr>])
                  = Inl (AssertionFailed m')"
    by blast
  moreover have "new_node one_literal (Provide ''f'' \<lparr>node = None\<rparr> [\<lparr>node = Some 0\<rparr>])
                  = Inl (AssertionFailed ''Provide of undefined'')"
    by (simp add: new_node_def incref_def lookup_def one_literal_def defined_def)
  ultimately have second: "new_node one_literal (Provide ''f'' \<lparr>node = None\<rparr> [\<lparr>node = Some 0\<rparr>])
                  = Inl (AssertionFailed ''Provide of undefined'')"
    by simp
  from a b first c d second show ?thesis by (intro conjI)
qed

subsection \<open>Pipeline\<close>

text \<open>
  C6. With produce and consume defined, constructing a Pipeline succeeds with
  update empty (two phases) and with update present (three phases), and the
  node stores the fields as given; with produce or consume empty it fails
  with the assert of Pipeline.
\<close>

theorem Pipeline_update_optional:
  assumes "valid h p" and "valid h u" and "valid h c"
  shows "(defined p \<and> defined c \<longrightarrow>
            (\<exists>h'. new_node h (Pipeline b p \<lparr>node = None\<rparr> c) = Inr (h', length h)
                 \<and> lookup h' (length h)
                     = Some \<lparr>ref_count = 0, data = Pipeline b p \<lparr>node = None\<rparr> c\<rparr>)
          \<and> (\<exists>h'. new_node h (Pipeline b p u c) = Inr (h', length h)
                 \<and> lookup h' (length h) = Some \<lparr>ref_count = 0, data = Pipeline b p u c\<rparr>))
       \<and> (\<not> defined p \<or> \<not> defined c \<longrightarrow>
            new_node h (Pipeline b p u c) = Inl (AssertionFailed ''Pipeline of undefined''))"
proof -
  have e: "valid h \<lparr>node = None\<rparr>" by (simp add: valid_def)
  have "defined p \<and> defined c \<longrightarrow>
          (\<exists>h'. new_node h (Pipeline b p \<lparr>node = None\<rparr> c) = Inr (h', length h)
               \<and> lookup h' (length h)
                   = Some \<lparr>ref_count = 0, data = Pipeline b p \<lparr>node = None\<rparr> c\<rparr>)"
    using assms e by (simp add: new_node_succeeds)
  moreover have "defined p \<and> defined c \<longrightarrow>
          (\<exists>h'. new_node h (Pipeline b p u c) = Inr (h', length h)
               \<and> lookup h' (length h) = Some \<lparr>ref_count = 0, data = Pipeline b p u c\<rparr>)"
    using assms by (simp add: new_node_succeeds)
  moreover have "\<not> defined p \<or> \<not> defined c \<longrightarrow>
          new_node h (Pipeline b p u c) = Inl (AssertionFailed ''Pipeline of undefined'')"
    using assms by (auto simp: new_node_aborts)
  ultimately show ?thesis by blast
qed

theorem Pipeline_update_optional_witness:
  "valid leaves \<lparr>node = Some 1\<rparr> \<and> valid leaves \<lparr>node = None\<rparr>
   \<and> defined \<lparr>node = Some 1\<rparr> \<and> \<not> defined \<lparr>node = None\<rparr>
   \<and> (\<exists>h'. new_node leaves (Pipeline ''f'' \<lparr>node = Some 1\<rparr> \<lparr>node = None\<rparr> \<lparr>node = Some 1\<rparr>)
               = Inr (h', length leaves))
   \<and> new_node leaves (Pipeline ''f'' \<lparr>node = None\<rparr> \<lparr>node = None\<rparr> \<lparr>node = Some 1\<rparr>)
       = Inl (AssertionFailed ''Pipeline of undefined'')"
proof -
  have v: "valid leaves \<lparr>node = Some 1\<rparr>" "valid leaves \<lparr>node = None\<rparr>"
    by (simp_all add: valid_def lookup_def leaves_def)
  have d: "defined \<lparr>node = Some 1\<rparr>" "\<not> defined \<lparr>node = None\<rparr>"
    by (simp_all add: defined_def)
  from Pipeline_update_optional [OF v(1) v(2) v(1), of "''f''"]
       Pipeline_update_optional [OF v(2) v(2) v(1), of "''f''"]
  show ?thesis using v d by blast
qed

subsection \<open>Ramp\<close>

text \<open>
  C7. With base and stride defined, constructing a Ramp of lane count \<open>w\<close>
  fails with the assert on the width when \<open>w \<le> 0\<close>, and succeeds when
  \<open>1 \<le> w\<close>, the node storing base, stride and \<open>w\<close> unchanged.
\<close>

theorem Ramp_width_positive:
  assumes "defined b" and "valid h b" and "defined s" and "valid h s"
  shows "(w \<le> 0 \<longrightarrow> new_node h (Ramp b s w) = Inl (AssertionFailed ''Ramp of width <= 0''))
       \<and> (1 \<le> w \<longrightarrow>
            (\<exists>h'. new_node h (Ramp b s w) = Inr (h', length h)
                 \<and> lookup h' (length h) = Some \<lparr>ref_count = 0, data = Ramp b s w\<rparr>))"
proof -
  have "w \<le> 0 \<longrightarrow> new_node h (Ramp b s w) = Inl (AssertionFailed ''Ramp of width <= 0'')"
    using assms by (simp add: new_node_aborts)
  moreover have "1 \<le> w \<longrightarrow>
            (\<exists>h'. new_node h (Ramp b s w) = Inr (h', length h)
                 \<and> lookup h' (length h) = Some \<lparr>ref_count = 0, data = Ramp b s w\<rparr>)"
    using assms by (simp add: new_node_succeeds)
  ultimately show ?thesis by blast
qed

theorem Ramp_width_positive_witness:
  "defined \<lparr>node = Some 0\<rparr> \<and> valid one_literal \<lparr>node = Some 0\<rparr>
   \<and> new_node one_literal (Ramp \<lparr>node = Some 0\<rparr> \<lparr>node = Some 0\<rparr> 0)
       = Inl (AssertionFailed ''Ramp of width <= 0'')
   \<and> (\<exists>h'. new_node one_literal (Ramp \<lparr>node = Some 0\<rparr> \<lparr>node = Some 0\<rparr> 4)
               = Inr (h', length one_literal)
            \<and> lookup h' (length one_literal)
                = Some \<lparr>ref_count = 0, data = Ramp \<lparr>node = Some 0\<rparr> \<lparr>node = Some 0\<rparr> 4\<rparr>)"
proof -
  have v: "valid one_literal \<lparr>node = Some 0\<rparr>"
    by (simp add: valid_def lookup_def one_literal_def)
  have d: "defined \<lparr>node = Some 0\<rparr>"
    by (simp add: defined_def)
  from Ramp_width_positive [OF d v d v, of 0] Ramp_width_positive [OF d v d v, of 4]
  show ?thesis using v d by simp
qed

subsection \<open>Empty argument lists\<close>

text \<open>
  C10. A Call, a PrintStmt or a Provide with an empty list of args, and a
  Realize with an empty list of bounds, are constructed, provided the other
  required fields (the value of Provide, the body of Realize) are present.
\<close>

theorem empty_lists_accepted:
  "(\<exists>h'. new_node h (Call ty b [] ct) = Inr (h', length h)
        \<and> lookup h' (length h) = Some \<lparr>ref_count = 0, data = Call ty b [] ct\<rparr>)
   \<and> (\<exists>h'. new_node h (PrintStmt p []) = Inr (h', length h)
        \<and> lookup h' (length h) = Some \<lparr>ref_count = 0, data = PrintStmt p []\<rparr>)
   \<and> (defined v \<and> valid h v \<longrightarrow>
        (\<exists>h'. new_node h (Provide b v []) = Inr (h', length h)
            \<and> lookup h' (length h) = Some \<lparr>ref_count = 0, data = Provide b v []\<rparr>))
   \<and> (defined bod \<and> valid h bod \<longrightarrow>
        (\<exists>h'. new_node h (Realize buf ty [] bod) = Inr (h', length h)
            \<and> lookup h' (length h) = Some \<lparr>ref_count = 0, data = Realize buf ty [] bod\<rparr>))"
proof -
  have "\<exists>h'. new_node h (Call ty b [] ct) = Inr (h', length h)
        \<and> lookup h' (length h) = Some \<lparr>ref_count = 0, data = Call ty b [] ct\<rparr>"
    by (simp add: new_node_succeeds)
  moreover have "\<exists>h'. new_node h (PrintStmt p []) = Inr (h', length h)
        \<and> lookup h' (length h) = Some \<lparr>ref_count = 0, data = PrintStmt p []\<rparr>"
    by (simp add: new_node_succeeds)
  moreover have "defined v \<and> valid h v \<longrightarrow>
        (\<exists>h'. new_node h (Provide b v []) = Inr (h', length h)
            \<and> lookup h' (length h) = Some \<lparr>ref_count = 0, data = Provide b v []\<rparr>)"
    by (simp add: new_node_succeeds)
  moreover have "defined bod \<and> valid h bod \<longrightarrow>
        (\<exists>h'. new_node h (Realize buf ty [] bod) = Inr (h', length h)
            \<and> lookup h' (length h) = Some \<lparr>ref_count = 0, data = Realize buf ty [] bod\<rparr>)"
    by (simp add: new_node_succeeds)
  ultimately show ?thesis by blast
qed


theorem empty_lists_accepted_witness:
  "defined \<lparr>node = Some 0\<rparr> \<and> valid leaves \<lparr>node = Some 0\<rparr>
   \<and> defined \<lparr>node = Some 1\<rparr> \<and> valid leaves \<lparr>node = Some 1\<rparr>
   \<and> (\<exists>h'. new_node leaves (Provide ''f'' \<lparr>node = Some 0\<rparr> [])
               = Inr (h', length leaves))
   \<and> (\<exists>h'. new_node leaves (Realize ''f'' \<lparr>t_code = Int_t, bits = 32, width = 1\<rparr> []
                                 \<lparr>node = Some 1\<rparr>)
               = Inr (h', length leaves))"
proof -
  have v: "valid leaves \<lparr>node = Some 0\<rparr>" "valid leaves \<lparr>node = Some 1\<rparr>"
    by (simp_all add: valid_def lookup_def leaves_def)
  have d: "defined \<lparr>node = Some 0\<rparr>" "defined \<lparr>node = Some 1\<rparr>"
    by (simp_all add: defined_def)
  from empty_lists_accepted [where h = leaves and v = "\<lparr>node = Some 0\<rparr>"
         and bod = "\<lparr>node = Some 1\<rparr>" and b = "''f''" and buf = "''f''"
         and ty = "\<lparr>t_code = Int_t, bits = 32, width = 1\<rparr>"]
  show ?thesis using v d by blast
qed

subsection \<open>Handles made from new nodes\<close>

lemma base_T_struct_of: "base_T d = struct_of d"
  by (cases d) simp_all

lemma new_handle_result:
  assumes "new_handle s x d = Inr s'"
  shows "handles s' x = Some \<lparr>node = Some (length (heap s))\<rparr>
         \<and> lookup (heap s') (length (heap s)) = Some \<lparr>ref_count = 1, data = d\<rparr>"
proof -
  from assms obtain h1 p where n: "new_node (heap s) d = Inr (h1, p)"
    and f: "IRHandle_from (s\<lparr>heap := h1\<rparr>) x (Some p) = Inr s'"
    by (auto simp: new_handle_def split: sum.splits)
  from new_node_result [OF n] have p: "p = length (heap s)"
    and l: "lookup h1 p = Some \<lparr>ref_count = 0, data = d\<rparr>" by blast+
  from l have "p < length h1" by (simp add: lookup_def split: if_splits)
  with f l p show ?thesis
    by (auto simp: IRHandle_from_def incref_def lookup_update split: option.splits sum.splits)
qed

lemma new_handle_succeeds:
  assumes "handles s x = None" and "list_all (valid (heap s)) (children d)"
    and "ctor_asserts d = None"
  shows "\<exists>s'. new_handle s x d = Inr s' \<and> length (heap s') = Suc (length (heap s))
              \<and> handles s' = (handles s)(x := Some \<lparr>node = Some (length (heap s))\<rparr>)"
proof -
  from new_node_succeeds [OF assms(2,3)] obtain h1
    where n: "new_node (heap s) d = Inr (h1, length (heap s))"
      and l: "lookup h1 (length (heap s)) = Some \<lparr>ref_count = 0, data = d\<rparr>" by blast
  from n have "length h1 = Suc (length (heap s))"
    by (auto simp: new_node_def split: sum.splits option.splits dest: incref_all_length)
  with n l assms(1) show ?thesis
    by (simp add: new_handle_def IRHandle_from_def incref_def)
qed

subsection \<open>accept on a handle\<close>

text \<open>
  C8. \<open>accept\<close> on a handle goes through the node pointer without a test for
  emptiness: it dereferences a null pointer exactly when the handle is not
  defined, and for a valid handle it dispatches exactly when the handle is
  defined.
\<close>

theorem accept_needs_defined:
  "(accept h hnd v st = Inl NullDereference \<longleftrightarrow> \<not> defined hnd)
   \<and> (valid h hnd \<longrightarrow> ((\<exists>st'. accept h hnd v st = Inr st') \<longleftrightarrow> defined hnd))"
  by (auto simp: accept_def defined_def valid_def split: option.splits)

theorem accept_needs_defined_witness:
  "valid one_literal \<lparr>node = Some 0\<rparr> \<and> defined \<lparr>node = Some 0\<rparr>
   \<and> (\<exists>st'. accept one_literal \<lparr>node = Some 0\<rparr> recorder [] = Inr st')
   \<and> valid one_literal \<lparr>node = None\<rparr> \<and> \<not> defined \<lparr>node = None\<rparr>
   \<and> accept one_literal \<lparr>node = None\<rparr> recorder [] = Inl NullDereference"
proof -
  have v: "valid one_literal \<lparr>node = Some 0\<rparr>" "valid one_literal \<lparr>node = None\<rparr>"
    by (simp_all add: valid_def lookup_def one_literal_def)
  have d: "defined \<lparr>node = Some 0\<rparr>" "\<not> defined \<lparr>node = None\<rparr>"
    by (simp_all add: defined_def)
  from accept_needs_defined [of one_literal "\<lparr>node = Some 0\<rparr>" recorder "[]"]
       accept_needs_defined [of one_literal "\<lparr>node = None\<rparr>" recorder "[]"]
  show ?thesis using v d by blast
qed

subsection \<open>Dispatch reaches the operation of the node's own kind\<close>

lemma catalog_instance_constructible:
  "\<exists>s'. new_handle two_holders 2 (catalog_instance k) = Inr s'"
proof -
  have "handles two_holders 2 = None"
    by (simp add: two_holders_def no_handles_def)
  moreover have "list_all (valid (heap two_holders)) (children (catalog_instance k))"
    by (cases k) (simp_all add: valid_def lookup_def two_holders_def leaves_def)
  moreover have "ctor_asserts (catalog_instance k) = None"
    by (cases k) (simp_all add: defined_def)
  ultimately show ?thesis
    using new_handle_succeeds [of two_holders 2 "catalog_instance k"] by blast
qed

text \<open>
  C3. Whenever a node of any kind is constructed and a handle made from it,
  \<open>accept\<close> with the recording visitor appends exactly one entry, the
  operation of the node's own struct on that node; and every kind of the
  catalog has an instance that is constructed.
\<close>

theorem accept_fires_own_kind:
  "(\<forall>s x d s' fired. new_handle s x d = Inr s' \<longrightarrow>
       (\<exists>p. handles s' x = Some \<lparr>node = Some p\<rparr>
           \<and> accept (heap s') \<lparr>node = Some p\<rparr> recorder fired
               = Inr (fired @ [(struct_of d, p)])))
   \<and> (\<forall>k. struct_of (catalog_instance k) = k
          \<and> (\<exists>s'. new_handle two_holders 2 (catalog_instance k) = Inr s'))"
proof -
  have "\<exists>p. handles s' x = Some \<lparr>node = Some p\<rparr>
            \<and> accept (heap s') \<lparr>node = Some p\<rparr> recorder fired
                = Inr (fired @ [(struct_of d, p)])"
    if "new_handle s x d = Inr s'" for s x d s' and fired :: "(NodeKind \<times> addr) list"
    using new_handle_result [OF that]
    by (simp add: accept_def IRNode_accept_def recorder_def base_T_struct_of)
  moreover have "struct_of (catalog_instance k) = k" for k
    by (cases k) simp_all
  ultimately show ?thesis
    using catalog_instance_constructible by blast
qed

theorem accept_fires_own_kind_witness:
  "\<exists>s'. new_handle two_holders 2 (catalog_instance For_k) = Inr s'
        \<and> handles s' 2 = Some \<lparr>node = Some 2\<rparr>
        \<and> accept (heap s') \<lparr>node = Some 2\<rparr> recorder [] = Inr [(For_k, 2)]"
proof -
  from accept_fires_own_kind
  obtain s' where s': "new_handle two_holders 2 (catalog_instance For_k) = Inr s'"
    by blast
  with accept_fires_own_kind
  obtain p where p: "handles s' 2 = Some \<lparr>node = Some p\<rparr>"
    "accept (heap s') \<lparr>node = Some p\<rparr> recorder []
       = Inr ([] @ [(struct_of (catalog_instance For_k), p)])"
    by blast
  from new_handle_result [OF s'] p(1) have "p = 2"
    by (simp add: two_holders_def leaves_def)
  with s' p show ?thesis by simp
qed

subsection \<open>sameAs compares the node pointers, null or not\<close>

lemma copy_sameAs:
  assumes "IRHandle_copy s y x = Inr s'"
  shows "\<exists>a b. handles s' x = Some a \<and> handles s' y = Some b \<and> sameAs a b \<and> sameAs b a"
  using assms
  by (auto simp: IRHandle_copy_def sameAs_def split: option.splits sum.splits)

text \<open>
  C5, as it is stated, fails for two empty handles (\<^verbatim>\<open>Expr a, b;\<close>): they
  are \<open>sameAs\<close> each other, both pointers being null, and neither references
  a node.
\<close>

theorem sameAs_of_empty_handles:
  "sameAs \<lparr>node = None\<rparr> \<lparr>node = None\<rparr> \<and> \<not> same_node \<lparr>node = None\<rparr> \<lparr>node = None\<rparr>"
  by (simp add: sameAs_def same_node_def)

text \<open>
  C5, amended. \<open>sameAs\<close> holds exactly when both handles reference the
  identical node or both are empty; where one of the two is defined it holds
  exactly when both reference the identical node. A handle and any copy of
  it are \<open>sameAs\<close>. Two handles to two separately constructed \<open>IntImm 5\<close> nodes
  are not \<open>sameAs\<close> each other, in either direction, although both nodes hold
  \<open>IntImm 5\<close>.
\<close>

theorem sameAs_is_identity:
  assumes "handles s x = None" and "handles s y = None" and "handles s z = None"
    and "x \<noteq> y" and "x \<noteq> z" and "y \<noteq> z"
  shows "(\<forall>a b. sameAs a b \<longleftrightarrow> same_node a b \<or> (\<not> defined a \<and> \<not> defined b))
       \<and> (\<forall>a b. defined a \<or> defined b \<longrightarrow> (sameAs a b \<longleftrightarrow> same_node a b))
       \<and> (\<forall>t u v t'. IRHandle_copy t u v = Inr t' \<longrightarrow>
             (\<exists>a b. handles t' v = Some a \<and> handles t' u = Some b
                  \<and> sameAs a b \<and> sameAs b a))
       \<and> (\<exists>s1 s2 s3 e1 e2 e3 p1 p2.
             new_handle s x (IntImm 5) = Inr s1
           \<and> new_handle s1 y (IntImm 5) = Inr s2
           \<and> IRHandle_copy s2 z x = Inr s3
           \<and> handles s3 x = Some e1 \<and> handles s3 y = Some e2 \<and> handles s3 z = Some e3
           \<and> node e1 = Some p1 \<and> node e2 = Some p2
           \<and> map_option data (lookup (heap s3) p1) = Some (IntImm 5)
           \<and> map_option data (lookup (heap s3) p2) = Some (IntImm 5)
           \<and> \<not> sameAs e1 e2 \<and> \<not> sameAs e2 e1 \<and> sameAs e1 e3 \<and> sameAs e3 e1)"
proof -
  from new_handle_succeeds [of s x "IntImm 5"] assms(1)
  obtain s1 where s1: "new_handle s x (IntImm 5) = Inr s1"
    and h1: "handles s1 = (handles s)(x := Some \<lparr>node = Some (length (heap s))\<rparr>)"
    and l1: "length (heap s1) = Suc (length (heap s))"
    by auto
  from new_handle_result [OF s1]
  have n1: "lookup (heap s1) (length (heap s)) = Some \<lparr>ref_count = 1, data = IntImm 5\<rparr>"
    by simp
  from h1 assms have y1: "handles s1 y = None" by simp
  from new_handle_succeeds [of s1 y "IntImm 5"] y1
  obtain s2 where s2: "new_handle s1 y (IntImm 5) = Inr s2"
    and h2: "handles s2 = (handles s1)(y := Some \<lparr>node = Some (length (heap s1))\<rparr>)"
    by auto
  from new_handle_result [OF s2]
  have n2: "lookup (heap s2) (length (heap s1)) = Some \<lparr>ref_count = 1, data = IntImm 5\<rparr>"
    by simp
  have heap2: "heap s2 = heap s1 @ [Some \<lparr>ref_count = 1, data = IntImm 5\<rparr>]"
    using s2 by (auto simp: new_handle_def new_node_def IRHandle_from_def incref_def lookup_def
                      split: sum.splits option.splits if_splits)
  have n1': "lookup (heap s2) (length (heap s)) = Some \<lparr>ref_count = 1, data = IntImm 5\<rparr>"
    using n1 l1 by (simp add: heap2 lookup_def nth_append)
  let ?e1 = "\<lparr>node = Some (length (heap s))\<rparr>"
  let ?e2 = "\<lparr>node = Some (length (heap s1))\<rparr>"
  let ?s3 = "\<lparr>heap = (heap s2)[length (heap s) := Some \<lparr>ref_count = 2, data = IntImm 5\<rparr>],
             handles = (handles s2)(z := Some ?e1)\<rparr>"
  have c: "IRHandle_copy s2 z x = Inr ?s3"
    using assms h1 h2 n1' by (simp add: IRHandle_copy_def incref_def)
  have "handles ?s3 x = Some ?e1" "handles ?s3 y = Some ?e2" "handles ?s3 z = Some ?e1"
    using assms h1 h2 by simp_all
  moreover have "map_option data (lookup (heap ?s3) (length (heap s))) = Some (IntImm 5)"
    using n1' by (simp add: lookup_update lookup_def split: if_splits)
  moreover have "map_option data (lookup (heap ?s3) (length (heap s1))) = Some (IntImm 5)"
    using n2 l1 by (simp add: lookup_update)
  moreover have "\<not> sameAs ?e1 ?e2" "\<not> sameAs ?e2 ?e1" "sameAs ?e1 ?e1"
    using l1 by (simp_all add: sameAs_def)
  ultimately have built: "\<exists>s1 s2 s3 e1 e2 e3 p1 p2.
             new_handle s x (IntImm 5) = Inr s1
           \<and> new_handle s1 y (IntImm 5) = Inr s2
           \<and> IRHandle_copy s2 z x = Inr s3
           \<and> handles s3 x = Some e1 \<and> handles s3 y = Some e2 \<and> handles s3 z = Some e3
           \<and> node e1 = Some p1 \<and> node e2 = Some p2
           \<and> map_option data (lookup (heap s3) p1) = Some (IntImm 5)
           \<and> map_option data (lookup (heap s3) p2) = Some (IntImm 5)
           \<and> \<not> sameAs e1 e2 \<and> \<not> sameAs e2 e1 \<and> sameAs e1 e3 \<and> sameAs e3 e1"
    using s1 s2 c by (auto simp: sameAs_def)
  have pointers: "\<forall>a b. sameAs a b \<longleftrightarrow> same_node a b \<or> (\<not> defined a \<and> \<not> defined b)"
    by (auto simp: sameAs_def same_node_def defined_def split: option.splits)
  have present: "\<forall>a b. defined a \<or> defined b \<longrightarrow> (sameAs a b \<longleftrightarrow> same_node a b)"
    by (auto simp: sameAs_def same_node_def defined_def split: option.splits)
  have copies: "\<forall>t u v t'. IRHandle_copy t u v = Inr t' \<longrightarrow>
             (\<exists>a b. handles t' v = Some a \<and> handles t' u = Some b
                  \<and> sameAs a b \<and> sameAs b a)"
    using copy_sameAs by blast
  from pointers present copies built show ?thesis by (intro conjI)
qed


theorem sameAs_is_identity_witness:
  "handles sole_holder 1 = None \<and> handles sole_holder 2 = None \<and> handles sole_holder 3 = None
   \<and> (\<exists>s1 s2 s3 e1 e2 e3 p1 p2.
             new_handle sole_holder 1 (IntImm 5) = Inr s1
           \<and> new_handle s1 2 (IntImm 5) = Inr s2
           \<and> IRHandle_copy s2 3 1 = Inr s3
           \<and> handles s3 1 = Some e1 \<and> handles s3 2 = Some e2 \<and> handles s3 3 = Some e3
           \<and> node e1 = Some p1 \<and> node e2 = Some p2
           \<and> map_option data (lookup (heap s3) p1) = Some (IntImm 5)
           \<and> map_option data (lookup (heap s3) p2) = Some (IntImm 5)
           \<and> \<not> sameAs e1 e2 \<and> \<not> sameAs e2 e1 \<and> sameAs e1 e3 \<and> sameAs e3 e1)"
proof -
  have a: "handles sole_holder 1 = None" "handles sole_holder 2 = None"
    "handles sole_holder 3 = None"
    by (simp_all add: sole_holder_def no_handles_def)
  have b: "(1::nat) \<noteq> 2" "(1::nat) \<noteq> 3" "(2::nat) \<noteq> 3" by simp_all
  from sameAs_is_identity [OF a b] show ?thesis using a by blast
qed

subsection \<open>What decref keeps and what it deletes\<close>

lemma keeps_data_refl: "keeps_data h h"
  by (simp add: keeps_data_def)

lemma keeps_data_trans:
  assumes "keeps_data h1 h2" and "keeps_data h2 h3"
  shows "keeps_data h1 h3"
  unfolding keeps_data_def
proof (intro conjI allI impI)
  show "length h1 \<le> length h3"
    using assms by (simp add: keeps_data_def)
next
  fix q n3
  assume q: "q < length h1" and l3: "lookup h3 q = Some n3"
  from assms(1) q have "q < length h2" by (simp add: keeps_data_def)
  with assms(2) l3 obtain n2 where n2: "lookup h2 q = Some n2" "data n3 = data n2"
    unfolding keeps_data_def by blast
  with assms(1) q obtain n1 where "lookup h1 q = Some n1" "data n2 = data n1"
    unfolding keeps_data_def by blast
  with n2 show "\<exists>n. lookup h1 q = Some n \<and> data n3 = data n" by simp
qed

lemma keeps_data_update:
  assumes "lookup h p = Some n" and "data n' = data n"
  shows "keeps_data h (h[p := Some n'])"
  using assms by (auto simp: keeps_data_def lookup_update)

lemma keeps_data_delete: "keeps_data h (h[p := None])"
  by (auto simp: keeps_data_def lookup_update)

lemma keeps_data_append: "keeps_data h (h @ cells)"
  by (auto simp: keeps_data_def lookup_def nth_append)

lemma keeps_dataD:
  assumes "keeps_data h h'" and "lookup h q = Some n" and "lookup h' q = Some n'"
  shows "data n' = data n"
proof -
  from assms(2) have "q < length h" by (simp add: lookup_def split: if_splits)
  with assms show ?thesis unfolding keeps_data_def by fastforce
qed

lemma keeps_data_dead:
  assumes "keeps_data h h'" and "q < length h" and "lookup h q = None"
  shows "lookup h' q = None"
proof (cases "lookup h' q")
  case None
  then show ?thesis .
next
  case (Some n')
  with assms(1,2) obtain n where "lookup h q = Some n"
    unfolding keeps_data_def by blast
  with assms(3) show ?thesis by simp
qed

lemma decref_run_keeps:
  "decref_run h todo = Inr h' \<Longrightarrow> keeps_data h h' \<and> length h' = length h"
proof (induction h todo arbitrary: h' rule: decref_run.induct)
  case (1 h)
  then show ?case by (simp add: keeps_data_refl)
next
  case (2 h p todo)
  from "2.prems" have "decref_run (h[p := None]) todo = Inr h'" by simp
  from "2.IH" [OF this] keeps_data_trans [OF keeps_data_delete [of h p]] show ?case
    by simp
next
  case (3 h p todo)
  from "3.prems" obtain n where n: "lookup h p = Some n"
    by (auto split: option.splits)
  let ?h = "h[p := Some (n\<lparr>ref_count := ref_count n - 1\<rparr>)]"
  have upd: "keeps_data h ?h" using n by (simp add: keeps_data_update)
  have step: "keeps_data ?h h' \<and> length h' = length ?h"
  proof (cases "ref_count n - 1 = 0")
    case True
    with "3.prems" n have "decref_run ?h
        (map Decref (ptrs (rev (children (data n)))) @ Delete p # todo) = Inr h'"
      by simp
    from "3.IH"(1) [OF n True this] show ?thesis .
  next
    case False
    with "3.prems" n have "decref_run ?h todo = Inr h'" by simp
    from "3.IH"(2) [OF n False this] show ?thesis .
  qed
  with keeps_data_trans [OF upd] show ?case by simp
qed

lemma decref_run_deletes:
  "decref_run h todo = Inr h' \<Longrightarrow> Delete p \<in> set todo \<Longrightarrow> lookup h' p = None"
proof (induction h todo arbitrary: h' rule: decref_run.induct)
  case (1 h)
  then show ?case by simp
next
  case (2 h p' todo)
  from "2.prems"(1) have run: "decref_run (h[p' := None]) todo = Inr h'" by simp
  show ?case
  proof (cases "Delete p \<in> set todo")
    case True
    from "2.IH" [OF run True] show ?thesis .
  next
    case False
    with "2.prems"(2) have eq: "p' = p" by simp
    show ?thesis
    proof (cases "p < length h")
      case True
      then have "lookup (h[p := None]) p = None" "p < length (h[p := None])"
        by (simp_all add: lookup_update)
      with decref_run_keeps [OF run] eq show ?thesis
        by (auto intro: keeps_data_dead)
    next
      case False
      with decref_run_keeps [OF run] show ?thesis
        by (simp add: lookup_def)
    qed
  qed
next
  case (3 h p' todo)
  from "3.prems"(1) obtain n where n: "lookup h p' = Some n"
    by (auto split: option.splits)
  show ?case
  proof (cases "ref_count n - 1 = 0")
    case True
    with "3.prems" n show ?thesis
      using "3.IH"(1) [OF n True] by simp
  next
    case False
    with "3.prems" n show ?thesis
      using "3.IH"(2) [OF n False] by simp
  qed
qed


lemma decref_empty: "decref h \<lparr>node = None\<rparr> = Inr (h, \<lparr>node = None\<rparr>)"
  by (simp add: decref_def)

lemma decref_shared:
  assumes "lookup h p = Some n" and "ref_count n \<noteq> 1"
  shows "decref h \<lparr>node = Some p\<rparr>
         = Inr (h[p := Some (n\<lparr>ref_count := ref_count n - 1\<rparr>)], \<lparr>node = Some p\<rparr>)"
  using assms by (simp add: decref_def)

lemma decref_keeps:
  assumes "decref h hnd = Inr (h', hnd')"
  shows "keeps_data h h' \<and> length h' = length h"
proof (cases "node hnd")
  case None
  with assms show ?thesis by (simp add: decref_def keeps_data_refl)
next
  case (Some p)
  with assms have "decref_run h [Decref p] = Inr h'"
    by (auto simp del: decref_run.simps simp: decref_def split: option.splits sum.splits)
  from decref_run_keeps [OF this] show ?thesis .
qed

lemma decref_last:
  assumes "lookup h p = Some n" and "ref_count n = 1"
    and "decref h \<lparr>node = Some p\<rparr> = Inr (h', hnd')"
  shows "lookup h' p = None \<and> hnd' = \<lparr>node = None\<rparr>"
proof -
  from assms have run: "decref_run h [Decref p] = Inr h'" and hnd: "hnd' = \<lparr>node = None\<rparr>"
    by (auto simp del: decref_run.simps simp: decref_def split: sum.splits)
  let ?h = "h[p := Some (n\<lparr>ref_count := ref_count n - 1\<rparr>)]"
  from run assms(1,2)
  have "decref_run ?h (map Decref (ptrs (rev (children (data n)))) @ [Delete p]) = Inr h'"
    by simp
  from decref_run_deletes [OF this, of p] have "lookup h' p = None" by simp
  with hnd show ?thesis by simp
qed

lemma incref_keeps:
  assumes "incref h hnd = Inr h'"
  shows "keeps_data h h' \<and> length h' = length h"
  using assms
  by (auto simp: incref_def keeps_data_refl keeps_data_update split: option.splits)

lemma incref_all_keeps:
  "incref_all h hnds = Inr h' \<Longrightarrow> keeps_data h h' \<and> length h' = length h"
proof (induction hnds arbitrary: h)
  case Nil
  then show ?case by (simp add: keeps_data_refl)
next
  case (Cons a hnds)
  from Cons.prems obtain h1 where a: "incref h a = Inr h1" and r: "incref_all h1 hnds = Inr h'"
    by (auto split: sum.splits)
  from Cons.IH [OF r] incref_keeps [OF a] show ?case
    by (auto intro: keeps_data_trans)
qed

lemma new_node_keeps:
  assumes "new_node h d = Inr (h', p)"
  shows "keeps_data h h'"
proof -
  from assms obtain h1 where i: "incref_all h (children d) = Inr h1"
    and h': "h' = h1 @ [Some \<lparr>ref_count = 0, data = d\<rparr>]"
    by (auto simp: new_node_def split: sum.splits option.splits)
  from incref_all_keeps [OF i] keeps_data_append [of h1] h' show ?thesis
    by (auto intro: keeps_data_trans)
qed

lemma IRHandle_from_keeps:
  "IRHandle_from s x r = Inr s' \<Longrightarrow> keeps_data (heap s) (heap s')"
  by (auto simp: IRHandle_from_def split: option.splits sum.splits dest: incref_keeps)

lemma new_handle_keeps:
  assumes "new_handle s x d = Inr s'"
  shows "keeps_data (heap s) (heap s')"
proof -
  from assms obtain h1 p where n: "new_node (heap s) d = Inr (h1, p)"
    and f: "IRHandle_from (s\<lparr>heap := h1\<rparr>) x (Some p) = Inr s'"
    by (auto simp: new_handle_def split: sum.splits)
  from new_node_keeps [OF n] IRHandle_from_keeps [OF f] show ?thesis
    by (auto intro: keeps_data_trans)
qed

lemma IRHandle_copy_keeps:
  "IRHandle_copy s x other = Inr s' \<Longrightarrow> keeps_data (heap s) (heap s')"
  by (auto simp: IRHandle_copy_def split: option.splits sum.splits dest: incref_keeps)

lemma IRHandle_dtor_keeps:
  "IRHandle_dtor s x = Inr s' \<Longrightarrow> keeps_data (heap s) (heap s')"
  by (auto simp: IRHandle_dtor_def split: option.splits sum.splits dest: decref_keeps)

lemma IRHandle_assign_keeps:
  assumes "IRHandle_assign s x other = Inr s'"
  shows "keeps_data (heap s) (heap s')"
proof -
  from assms obtain this h1 this1 hnd where "decref (heap s) this = Inr (h1, this1)"
    and "incref h1 hnd = Inr (heap s')"
    by (auto simp: IRHandle_assign_def split: option.splits sum.splits)
  with decref_keeps incref_keeps show ?thesis
    by (blast intro: keeps_data_trans)
qed

lemma step_keeps:
  assumes "step v (s, st) a = Inr (s', st')"
  shows "keeps_data (heap s) (heap s')"
proof (cases a)
  case (New x d)
  with assms show ?thesis by (auto split: sum.splits dest: new_handle_keeps)
next
  case (Copy x y)
  with assms show ?thesis by (auto split: sum.splits dest: IRHandle_copy_keeps)
next
  case (Assign x y)
  with assms show ?thesis by (auto split: sum.splits dest: IRHandle_assign_keeps)
next
  case (Destroy x)
  with assms show ?thesis by (auto split: sum.splits dest: IRHandle_dtor_keeps)
next
  case (Accept x)
  with assms show ?thesis by (auto split: sum.splits option.splits simp: keeps_data_refl)
qed

lemma run_keeps:
  "run v (s, st) ops = Inr (s', st') \<Longrightarrow> keeps_data (heap s) (heap s')"
proof (induction ops arbitrary: s st)
  case Nil
  then show ?case by (simp add: keeps_data_refl)
next
  case (Cons a ops)
  from Cons.prems obtain s1 st1 where a: "step v (s, st) a = Inr (s1, st1)"
    and r: "run v (s1, st1) ops = Inr (s', st')"
    by (auto split: sum.splits)
  from step_keeps [OF a] Cons.IH [OF r] show ?case
    by (rule keeps_data_trans)
qed

subsection \<open>The fields of a node\<close>

text \<open>
  C4, as it is stated, fails on the field \<open>ref_count\<close>, which the header
  declares \<^verbatim>\<open>mutable\<close>: copying the only handle of the literal changes it
  from 1 to 2.
\<close>

theorem ref_count_is_mutated:
  "map_option ref_count (lookup (heap sole_holder) 0) = Some 1
   \<and> IRHandle_copy sole_holder 1 0
       = Inr \<lparr>heap = [Some \<lparr>ref_count = 2, data = IntImm 5\<rparr>],
              handles = (handles sole_holder)(1 := Some \<lparr>node = Some 0\<rparr>)\<rparr>"
  by (simp add: IRHandle_copy_def incref_def lookup_def sole_holder_def one_literal_def
                no_handles_def)

text \<open>
  C4, amended. Whatever the client does after the construction of a node
  (new nodes and handles, copies, assignments, destructions of handles,
  \<open>accept\<close>), as long as the node exists its fields other than \<open>ref_count\<close> are
  those it was constructed with.
\<close>

theorem node_data_never_mutated:
  assumes "run v (s, st) ops = Inr (s', st')"
    and "lookup (heap s) q = Some n" and "lookup (heap s') q = Some n'"
  shows "data n' = data n"
  using keeps_dataD [OF run_keeps [OF assms(1)] assms(2,3)] .

theorem node_data_never_mutated_witness:
  "\<exists>s' st' n'. run recorder (sum_tree, []) [Copy 1 0, Accept 1, Assign 0 1, Destroy 0]
                  = Inr (s', st')
      \<and> lookup (heap sum_tree) 2
          = Some \<lparr>ref_count = 1, data = Add \<lparr>node = Some 0\<rparr> \<lparr>node = Some 1\<rparr>\<rparr>
      \<and> lookup (heap s') 2 = Some n'
      \<and> data n' = Add \<lparr>node = Some 0\<rparr> \<lparr>node = Some 1\<rparr>"
proof -
  obtain s' st' where r: "run recorder (sum_tree, []) [Copy 1 0, Accept 1, Assign 0 1, Destroy 0]
                            = Inr (s', st')"
    and h: "heap s' = [Some \<lparr>ref_count = 1, data = IntImm 1\<rparr>,
                       Some \<lparr>ref_count = 1, data = IntImm 2\<rparr>,
                       Some \<lparr>ref_count = 1, data = Add \<lparr>node = Some 0\<rparr> \<lparr>node = Some 1\<rparr>\<rparr>]"
    by (simp add: sum_tree_def no_handles_def IRHandle_copy_def IRHandle_assign_def
                  IRHandle_dtor_def incref_def decref_def lookup_def accept_def)
  have a: "lookup (heap sum_tree) 2
           = Some \<lparr>ref_count = 1, data = Add \<lparr>node = Some 0\<rparr> \<lparr>node = Some 1\<rparr>\<rparr>"
    by (simp add: sum_tree_def lookup_def)
  have b: "lookup (heap s') 2
           = Some \<lparr>ref_count = 1, data = Add \<lparr>node = Some 0\<rparr> \<lparr>node = Some 1\<rparr>\<rparr>"
    by (simp add: h lookup_def)
  from node_data_never_mutated [OF r a b] r a b show ?thesis by simp
qed

subsection \<open>The destructors succeed where the counts cover the references\<close>














subsection \<open>Self-assignment\<close>

lemma self_assign_shared:
  assumes "handles s x = Some \<lparr>node = Some p\<rparr>" and "lookup (heap s) p = Some n"
    and "ref_count n \<noteq> 1"
  shows "IRHandle_assign s x x = Inr s"
proof -
  let ?n1 = "n\<lparr>ref_count := ref_count n - 1\<rparr>"
  let ?h1 = "(heap s)[p := Some ?n1]"
  from assms(2) have p: "p < length (heap s)" and n: "heap s ! p = Some n"
    by (simp_all add: lookup_def split: if_splits)
  have d: "decref (heap s) \<lparr>node = Some p\<rparr> = Inr (?h1, \<lparr>node = Some p\<rparr>)"
    using assms(2,3) by (rule decref_shared)
  have l: "lookup ?h1 p = Some ?n1" using p by (simp add: lookup_update)
  have "?h1[p := Some (?n1\<lparr>ref_count := ref_count ?n1 + 1\<rparr>)] = heap s"
    using n p by (simp add: list_update_same_conv)
  moreover have "(handles s)(x := Some \<lparr>node = Some p\<rparr>) = handles s"
    using assms(1) by (simp add: fun_upd_idem)
  ultimately show ?thesis
    using assms(1) d l by (simp add: IRHandle_assign_def incref_def)
qed

lemma self_assign_last:
  assumes "handles s x = Some \<lparr>node = Some p\<rparr>" and "lookup (heap s) p = Some n"
    and "ref_count n = 1" and "IRHandle_assign s x x = Inr s1"
  shows "handles s1 x = Some \<lparr>node = None\<rparr> \<and> lookup (heap s1) p = None"
proof -
  from assms(1,4) obtain h1 this1 where d: "decref (heap s) \<lparr>node = Some p\<rparr> = Inr (h1, this1)"
    by (auto simp: IRHandle_assign_def split: sum.splits)
  from decref_last [OF assms(2,3) d] have dead: "lookup h1 p = None"
    and this1: "this1 = \<lparr>node = None\<rparr>" by simp_all
  from assms(1,4) d this1
  have "s1 = \<lparr>heap = h1, handles = (handles s)(x := Some \<lparr>node = None\<rparr>)\<rparr>"
    by (simp add: IRHandle_assign_def incref_def)
  with dead show ?thesis by simp
qed

text \<open>
  C9. The handle 0 is the only holder of the literal (count 1). The
  assignment of the handle to itself runs \<open>decref\<close> first: the count reaches
  zero, the node is deleted and the handle's pointer set to null; the
  pointer then read from \<open>other\<close>, which is the same handle, is null. The
  handle ends empty and the node is gone. (\<open>self_assign_last\<close> has this for
  every sole holder, and \<open>self_assign_shared\<close> that a self-assignment changes
  nothing where the count is not 1.)
\<close>

theorem self_assignment_drops_node:
  "handles sole_holder 0 = Some \<lparr>node = Some 0\<rparr>
   \<and> heap sole_holder = [Some \<lparr>ref_count = 1, data = IntImm 5\<rparr>]
   \<and> IRHandle_assign sole_holder 0 0
       = Inr \<lparr>heap = [None], handles = no_handles(0 := Some \<lparr>node = None\<rparr>)\<rparr>"
  by (simp add: IRHandle_assign_def decref_def incref_def lookup_def sole_holder_def
                one_literal_def ptrs_def map_filter_def)

subsection \<open>The share count\<close>











lemma sum_tree_built:
  "run recorder (empty_state, [])
     [New 1 (IntImm 1), New 2 (IntImm 2), New 0 (Add \<lparr>node = Some 0\<rparr> \<lparr>node = Some 1\<rparr>),
      Destroy 1, Destroy 2]
   = Inr (sum_tree, [])"
  by (simp add: empty_state_def sum_tree_def new_handle_def new_node_def IRHandle_from_def
                IRHandle_dtor_def incref_def decref_def lookup_def defined_def no_handles_def
                fun_eq_iff)













end
